theory Spec2Isabelle
  imports Main
begin

section \<open>Strings and path segments\<close>

text \<open>
  File paths, directory names and project names are JavaScript strings, modelled as
  \<^typ>\<open>string\<close>. The source takes the last path segment of a name with
  \<^verbatim>\<open>s.split('/').slice(-1)[0]\<close>: \<open>js_split\<close> is \<^verbatim>\<open>String.prototype.split\<close> for a
  one-character separator (it never returns the empty array: the empty string splits
  into one empty segment, so the first branch of the inner \<open>case\<close> never arises), and
  \<open>lastSegment\<close> is the last element of the split.
\<close>

fun js_split :: "char \<Rightarrow> string \<Rightarrow> string list" where
  "js_split sep [] = [[]]"
| "js_split sep (c # cs) =
     (if c = sep then [] # js_split sep cs
      else (case js_split sep cs of
              [] \<Rightarrow> [[c]]
            | seg # segs \<Rightarrow> (c # seg) # segs))"

definition lastSegment :: "string \<Rightarrow> string" where
  "lastSegment s = last (js_split CHR ''/'' s)"

section \<open>The path pattern of \<open>dirFinder\<close>\<close>

text \<open>
  \<^verbatim>\<open>dirFinder(dir)\<close> builds \<^verbatim>\<open>new RegExp(`(${dir}\\/[^/]+)\\/.+`)\<close> and returns
  \<^verbatim>\<open>file => file.match(pathRegExp)?.[1]\<close>. The pattern is not anchored and has no flags,
  so \<^verbatim>\<open>match\<close> tries the start positions from left to right and returns the first
  position where the pattern matches; \<open>.\<close> matches every character but a line terminator.

  The directory name is spliced into the pattern text. The embedding reads it as literal
  text, which is what the pattern does for a name made of characters without a meaning
  in the pattern language (\<open>literalDir\<close>); the theorems that depend on how a path is
  matched carry that hypothesis.

  \<open>matchHere dir s\<close> is the match attempt at the start of \<open>s\<close>: the text \<open>dir\<close>, a slash,
  the longest non-empty run of characters other than a slash (the run is followed by a
  slash or by the end, so no shorter run can be followed by the slash the pattern asks
  for next), a slash, and at least one character that \<open>.\<close> accepts. Its result is the
  first capture group. Characters are the 8-bit \<^typ>\<open>char\<close>, so of JavaScript's four
  line terminators only line feed and carriage return exist here.
\<close>

definition lineTerminator :: "char \<Rightarrow> bool" where
  "lineTerminator c = (c = CHR 0x0A \<or> c = CHR 0x0D)"

definition syntaxCharacter :: "char \<Rightarrow> bool" where
  "syntaxCharacter c = (c \<in> set [CHR ''^'', CHR ''$'', CHR 0x5C, CHR ''.'', CHR ''*'',
     CHR ''+'', CHR ''?'', CHR ''('', CHR '')'', CHR ''['', CHR '']'', CHR ''{'', CHR ''}'',
     CHR ''|''])"

definition literalDir :: "string \<Rightarrow> bool" where
  "literalDir dir = (\<not> list_ex syntaxCharacter dir)"

definition matchHere :: "string \<Rightarrow> string \<Rightarrow> string option" where
  "matchHere dir s =
     (if take (length dir) s = dir then
        (case drop (length dir) s of
           [] \<Rightarrow> None
         | c # r \<Rightarrow>
            if c = CHR ''/'' then
              (let seg = takeWhile (\<lambda>x. x \<noteq> CHR ''/'') r;
                   rest = dropWhile (\<lambda>x. x \<noteq> CHR ''/'') r
               in if seg = [] then None
                  else (case rest of
                          [] \<Rightarrow> None
                        | [sl] \<Rightarrow> None
                        | sl # d # rst \<Rightarrow>
                            if lineTerminator d then None
                            else Some (dir @ [CHR ''/''] @ seg)))
            else None)
      else None)"

fun matchFrom :: "string \<Rightarrow> string \<Rightarrow> string option" where
  "matchFrom dir [] = matchHere dir []"
| "matchFrom dir (c # cs) =
     (case matchHere dir (c # cs) of
        Some m \<Rightarrow> Some m
      | None \<Rightarrow> matchFrom dir cs)"

definition dirFinder :: "string \<Rightarrow> string \<Rightarrow> string option" where
  "dirFinder dir file = matchFrom dir file"

section \<open>The affected-set resolver \<open>getChanges\<close>\<close>

text \<open>
  An entry of the \<^verbatim>\<open>implicitDependencies\<close> table is an object \<^verbatim>\<open>{ file }\<close> (a key of
  \<^verbatim>\<open>nx.implicitDependencies\<close>) or \<^verbatim>\<open>{ key, projects }\<close> with \<^verbatim>\<open>projects\<close> a \<^verbatim>\<open>Set\<close>; a
  property the object does not have reads as \<^verbatim>\<open>undefined\<close>, here \<open>None\<close>. A \<^verbatim>\<open>Set\<close> of
  strings is the list of its elements in insertion order, which is the order the source
  reads it in; \<open>set_add\<close> is \<^verbatim>\<open>Set.prototype.add\<close>.
\<close>

datatype dependency = FileEntry string | KeyEntry string "string list"

fun dep_file :: "dependency \<Rightarrow> string option" where
  "dep_file (FileEntry f) = Some f"
| "dep_file (KeyEntry k ps) = None"

fun dep_key :: "dependency \<Rightarrow> string option" where
  "dep_key (FileEntry f) = None"
| "dep_key (KeyEntry k ps) = Some k"

fun dep_projects :: "dependency \<Rightarrow> string list option" where
  "dep_projects (FileEntry f) = None"
| "dep_projects (KeyEntry k ps) = Some ps"

definition set_add :: "string \<Rightarrow> string list \<Rightarrow> string list" where
  "set_add x s = (if x \<in> set s then s else s @ [x])"

record Changes =
  apps :: "string list"
  libs :: "string list"
  implicitDependencies :: "string list"

definition findImplicitDependencies :: "dependency list \<Rightarrow> string \<Rightarrow> dependency option" where
  "findImplicitDependencies deps f = find (\<lambda>dependency. dep_file dependency = Some f) deps"

text \<open>
  The callback of \<^verbatim>\<open>changedFiles.reduce\<close> is three \<^verbatim>\<open>if\<close> blocks in a row, each mutating
  the accumulator: \<open>implicitHit\<close> (lines 125-130 of main.ts), \<open>libHit\<close> (lines 132-150, with
  \<open>addProject\<close> the callback of its \<^verbatim>\<open>forEach\<close>) and \<open>appHit\<close> (lines 152-155). A captured
  group is tested for truthiness, that is, for being a non-empty string. The entry that
  \<open>findImplicitDependencies\<close> returns has the \<^verbatim>\<open>file\<close> it was found by, so the second
  branch of \<open>implicitHit\<close> is the case of no entry found.
\<close>

definition implicitHit ::
  "string list \<Rightarrow> string list \<Rightarrow> dependency list \<Rightarrow> Changes \<Rightarrow> string \<Rightarrow> Changes" where
  "implicitHit allApps allLibs deps acc f =
     (case findImplicitDependencies deps f of
        Some (FileEntry g) \<Rightarrow>
          acc\<lparr>apps := foldl (\<lambda>s app. set_add (lastSegment app) s) (apps acc) allApps,
              libs := foldl (\<lambda>s lib. set_add (lastSegment lib) s) (libs acc) allLibs,
              implicitDependencies := implicitDependencies acc @ [g]\<rparr>
      | _ \<Rightarrow> acc)"

definition addProject :: "string list \<Rightarrow> string list \<Rightarrow> Changes \<Rightarrow> string \<Rightarrow> Changes" where
  "addProject allApps allLibs acc project =
     (let acc1 = (if project \<in> set allApps
                  then acc\<lparr>apps := set_add (lastSegment project) (apps acc)\<rparr> else acc)
      in if project \<in> set allLibs
         then acc1\<lparr>libs := set_add (lastSegment project) (libs acc1)\<rparr> else acc1)"

definition libHit ::
  "string list \<Rightarrow> string list \<Rightarrow> dependency list \<Rightarrow> string \<Rightarrow> Changes \<Rightarrow> string \<Rightarrow> Changes" where
  "libHit allApps allLibs deps libsDir acc f =
     (case dirFinder libsDir f of
        None \<Rightarrow> acc
      | Some lib \<Rightarrow>
          if lib = [] then acc
          else
            (let libName = lastSegment lib;
                 acc1 = acc\<lparr>libs := set_add (lastSegment lib) (libs acc)\<rparr>
             in case find (\<lambda>dependency. dep_key dependency = Some libName) deps of
                  None \<Rightarrow> acc1
                | Some dependency \<Rightarrow>
                    (case dep_projects dependency of
                       None \<Rightarrow> acc1
                     | Some projects \<Rightarrow> foldl (addProject allApps allLibs) acc1 projects)))"

definition appHit :: "string \<Rightarrow> Changes \<Rightarrow> string \<Rightarrow> Changes" where
  "appHit appsDir acc f =
     (case dirFinder appsDir f of
        None \<Rightarrow> acc
      | Some app \<Rightarrow>
          if app = [] then acc
          else acc\<lparr>apps := set_add (lastSegment app) (apps acc)\<rparr>)"

definition reducer ::
  "string \<Rightarrow> string \<Rightarrow> string list \<Rightarrow> string list \<Rightarrow> dependency list \<Rightarrow> Changes \<Rightarrow> string \<Rightarrow> Changes" where
  "reducer appsDir libsDir allApps allLibs deps acc f =
     appHit appsDir
       (libHit allApps allLibs deps libsDir
          (implicitHit allApps allLibs deps acc f) f) f"

definition initialChanges :: Changes where
  "initialChanges = \<lparr>apps = [], libs = [], implicitDependencies = []\<rparr>"

definition accumulate ::
  "string \<Rightarrow> string \<Rightarrow> string list \<Rightarrow> string list \<Rightarrow> dependency list \<Rightarrow> string list \<Rightarrow> Changes" where
  "accumulate appsDir libsDir allApps allLibs deps changedFiles =
     foldl (reducer appsDir libsDir allApps allLibs deps) initialChanges changedFiles"

text \<open>
  \<open>getChanges\<close> of main.ts (lines 97-171): the result of the fold, with the ignore list
  applied to \<^verbatim>\<open>apps\<close> by \<^verbatim>\<open>filter(name => !ignore.includes(name))\<close>; \<^verbatim>\<open>libs\<close> and
  \<^verbatim>\<open>implicitDependencies\<close> are returned as accumulated (lines 166-170). The ignore list
  has its declared type, a list of strings (\<open>ign\<close>: the name \<open>ignore\<close> is the field of \<open>Refs\<close>
  below).
\<close>

definition getChanges ::
  "string \<Rightarrow> string \<Rightarrow> string list \<Rightarrow> string list \<Rightarrow> dependency list \<Rightarrow> string list
     \<Rightarrow> string list \<Rightarrow> Changes" where
  "getChanges appsDir libsDir allApps allLibs deps changedFiles ign =
     (let changes = accumulate appsDir libsDir allApps allLibs deps changedFiles
      in \<lparr>apps = filter (\<lambda>name. name \<notin> set ign) (apps changes),
          libs = libs changes,
          implicitDependencies = implicitDependencies changes\<rparr>)"


section \<open>The table of implicit dependencies\<close>

text \<open>
  \<^verbatim>\<open>main\<close> builds the table (main.ts, lines 193-215) from the keys of
  \<^verbatim>\<open>nx.implicitDependencies\<close> (\<open>files\<close>), each of which becomes an entry \<^verbatim>\<open>{ file }\<close>, and from
  the projects of the workspace with the keys each one declares: \<open>addDependent\<close> is the
  callback of the inner \<^verbatim>\<open>forEach\<close>, which adds the project \<open>name\<close> to the first entry with
  the key and pushes a new entry when there is none. \<open>tableKeys\<close> lists the keys of the
  keyed entries of a table.
\<close>

fun addDependent :: "string \<Rightarrow> dependency list \<Rightarrow> string \<Rightarrow> dependency list" where
  "addDependent name [] key = [KeyEntry key [name]]"
| "addDependent name (KeyEntry k ps # result) key =
     (if k = key then KeyEntry k (set_add name ps) # result
      else KeyEntry k ps # addDependent name result key)"
| "addDependent name (FileEntry f # result) key = FileEntry f # addDependent name result key"

definition groupByKey :: "(string \<times> string list) list \<Rightarrow> dependency list" where
  "groupByKey projects =
     foldl (\<lambda>result (name, keys). foldl (addDependent name) result keys) [] projects"

definition buildImplicitDependencies ::
  "string list \<Rightarrow> (string \<times> string list) list \<Rightarrow> dependency list" where
  "buildImplicitDependencies files projects = map FileEntry files @ groupByKey projects"

definition tableKeys :: "dependency list \<Rightarrow> string list" where
  "tableKeys deps = List.map_filter dep_key deps"

section \<open>The reference resolver \<open>getBaseAndHeadRefs\<close>\<close>

text \<open>
  \<open>github_context\<close> holds what the function reads of \<^verbatim>\<open>context\<close>: the event name and the four
  commit identifiers of the payload, each of which may be absent (\<^verbatim>\<open>undefined\<close>). The inputs
  \<^verbatim>\<open>base\<close>, \<^verbatim>\<open>head\<close> and \<^verbatim>\<open>ignore\<close> are strings (\<^verbatim>\<open>getInput\<close> returns the empty string for
  an input that is not set). \<^verbatim>\<open>!x\<close> holds of \<^verbatim>\<open>undefined\<close> and of the empty string (\<open>falsy\<close>).

  \<^verbatim>\<open>JSON.parse\<close> belongs to the runtime, so it is a parameter: it returns the parsed value
  or throws (\<open>None\<close>). A JSON number is a double, whose value the program never reads.
  The array that \<^verbatim>\<open>JSON.parse\<close> returns becomes the ignore list as it is, its elements
  unchecked, so the \<open>ignore\<close> field of \<open>Refs\<close> is a list of JSON values.
  The two \<^verbatim>\<open>throw\<close> statements are the first two constructors of \<open>error\<close>.

  The \<^verbatim>\<open>info\<close> log lines write text and are not part of the result, but the text of the
  last one (line 63) is built with \<^verbatim>\<open>parsedIgnore.join(',')\<close>, outside the \<^verbatim>\<open>try\<close> and before
  the \<^verbatim>\<open>return\<close>: \<^verbatim>\<open>join\<close> converts every element to a string, and the conversion throws a
  \<^verbatim>\<open>TypeError\<close> for an object whose own property \<^verbatim>\<open>toString\<close> hides the inherited method (a
  parsed JSON value is never callable, and the inherited \<^verbatim>\<open>valueOf\<close> returns the object
  itself). \<^verbatim>\<open>null\<close>, booleans, numbers and strings convert, an object without that
  property converts to \<^verbatim>\<open>[object Object]\<close>, and an array converts by joining its own
  elements. \<open>toStringThrows\<close> says whether the conversion of a value throws; the third
  constructor of \<open>error\<close> is that \<^verbatim>\<open>TypeError\<close>. The depth of the call stack is not modelled.
  The four commit identifiers have their declared type, \<^verbatim>\<open>string\<close>.
\<close>

typedecl js_number

datatype json =
  JNull
| JBool bool
| JNumber js_number
| JString string
| JArray "json list"
| JObject "(string \<times> json) list"

record github_context =
  eventName :: string
  pull_request_base_sha :: "string option"
  pull_request_head_sha :: "string option"
  payload_before :: "string option"
  payload_after :: "string option"

datatype error = MissingRefsForEvent string | MissingRefs | TypeError

record Refs =
  base :: string
  head :: string
  ignore :: "json list"

definition falsy :: "string option \<Rightarrow> bool" where
  "falsy v = (case v of None \<Rightarrow> True | Some s \<Rightarrow> s = [])"

text \<open>The \<^verbatim>\<open>switch\<close> on the event name (lines 30-43).\<close>

definition selectRefs ::
  "github_context \<Rightarrow> string \<Rightarrow> string \<Rightarrow> error + (string option \<times> string option)" where
  "selectRefs ctx b h =
     (if eventName ctx = ''pull_request''
        then Inr (pull_request_base_sha ctx, pull_request_head_sha ctx)
      else if eventName ctx = ''push''
        then Inr (payload_before ctx, payload_after ctx)
      else if falsy (Some b) \<or> falsy (Some h)
        then Inl (MissingRefsForEvent (eventName ctx))
      else Inr (Some b, Some h))"

text \<open>The \<^verbatim>\<open>try\<close> block around \<^verbatim>\<open>JSON.parse\<close> (lines 45-55).\<close>

definition parseIgnore :: "(string \<Rightarrow> json option) \<Rightarrow> string \<Rightarrow> json list" where
  "parseIgnore JSON_parse ign =
     (case JSON_parse ign of
        Some (JArray tmp) \<Rightarrow> tmp
      | _ \<Rightarrow> [])"

text \<open>Whether \<^verbatim>\<open>join\<close> throws on an element (line 63).\<close>

fun toStringThrows :: "json \<Rightarrow> bool" where
  "toStringThrows JNull = False"
| "toStringThrows (JBool v) = False"
| "toStringThrows (JNumber v) = False"
| "toStringThrows (JString v) = False"
| "toStringThrows (JArray vs) = list_ex toStringThrows vs"
| "toStringThrows (JObject kvs) = (''toString'' \<in> set (map fst kvs))"

definition getBaseAndHeadRefs ::
  "github_context \<Rightarrow> (string \<Rightarrow> json option) \<Rightarrow> string \<Rightarrow> string \<Rightarrow> string \<Rightarrow> error + Refs" where
  "getBaseAndHeadRefs ctx JSON_parse b h ign =
     (case selectRefs ctx b h of
        Inl e \<Rightarrow> Inl e
      | Inr (b', h') \<Rightarrow>
          (let parsedIgnore = parseIgnore JSON_parse ign
           in case (b', h') of
                (Some bs, Some hs) \<Rightarrow>
                  if bs = [] \<or> hs = [] then Inl MissingRefs
                  else if list_ex toStringThrows parsedIgnore then Inl TypeError
                  else Inr \<lparr>base = bs, head = hs, ignore = parsedIgnore\<rparr>
              | _ \<Rightarrow> Inl MissingRefs))"

text \<open>
  The start of \<^verbatim>\<open>main\<close> (lines 177-185): the references are resolved, and only then does
  \<^verbatim>\<open>getChangedFiles\<close> send its one request, \<^verbatim>\<open>compareCommits\<close>, whose answer (the file
  names of the comparison) is a parameter. An error thrown by \<open>getBaseAndHeadRefs\<close> ends
  \<^verbatim>\<open>main\<close>. The result holds the requests sent, in order.
\<close>

datatype request = CompareCommits string string

definition main_changedFiles ::
  "github_context \<Rightarrow> (string \<Rightarrow> json option) \<Rightarrow> (string \<Rightarrow> string \<Rightarrow> string list)
     \<Rightarrow> string \<Rightarrow> string \<Rightarrow> string \<Rightarrow> request list \<times> (error + string list)" where
  "main_changedFiles ctx JSON_parse compareCommits baseRef headRef ignoreInput =
     (case getBaseAndHeadRefs ctx JSON_parse baseRef headRef ignoreInput of
        Inl e \<Rightarrow> ([], Inl e)
      | Inr refs \<Rightarrow>
          ([CompareCommits (base refs) (head refs)],
           Inr (compareCommits (base refs) (head refs))))"

section \<open>The earlier \<open>getChanges\<close>\<close>

text \<open>
  The repository holds a second version of the file (part_000), whose \<^verbatim>\<open>getChanges\<close> (lines
  94-144) has no fan-out: the table is a list of file names, the names it collects are
  the captured groups themselves, and a found file name is tested for truthiness before
  it is pushed. Its last step (lines 139-143) applies the ignore list to \<^verbatim>\<open>apps\<close> and to
  \<^verbatim>\<open>libs\<close>.
\<close>

definition reducer_part_000 ::
  "string \<Rightarrow> string \<Rightarrow> string list \<Rightarrow> Changes \<Rightarrow> string \<Rightarrow> Changes" where
  "reducer_part_000 appsDir libsDir deps acc f =
     (let acc1 = (case dirFinder appsDir f of
                    None \<Rightarrow> acc
                  | Some app \<Rightarrow>
                      if app = [] then acc else acc\<lparr>apps := set_add app (apps acc)\<rparr>);
          acc2 = (case dirFinder libsDir f of
                    None \<Rightarrow> acc1
                  | Some lib \<Rightarrow>
                      if lib = [] then acc1 else acc1\<lparr>libs := set_add lib (libs acc1)\<rparr>)
      in case find (\<lambda>dependency. f = dependency) deps of
           None \<Rightarrow> acc2
         | Some implicitDependency \<Rightarrow>
             if implicitDependency = [] then acc2
             else acc2\<lparr>implicitDependencies :=
                         implicitDependencies acc2 @ [implicitDependency]\<rparr>)"

definition getChanges_part_000 ::
  "string \<Rightarrow> string \<Rightarrow> string list \<Rightarrow> string list \<Rightarrow> string list \<Rightarrow> Changes" where
  "getChanges_part_000 appsDir libsDir deps changedFiles ign =
     (let changes = foldl (reducer_part_000 appsDir libsDir deps) initialChanges changedFiles
      in \<lparr>apps = filter (\<lambda>name. name \<notin> set ign) (apps changes),
          libs = filter (\<lambda>name. name \<notin> set ign) (libs changes),
          implicitDependencies = implicitDependencies changes\<rparr>)"

section \<open>Auxiliary facts\<close>

lemma js_split_not_Nil: "js_split sep s \<noteq> []"
  by (induction s) (auto split: list.splits)

lemma set_set_add: "set (set_add x s) = insert x (set s)"
  by (auto simp: set_add_def)

lemma distinct_set_add: "distinct s \<Longrightarrow> distinct (set_add x s)"
  by (simp add: set_add_def)

lemma set_foldl_set_add:
  "set (foldl (\<lambda>s a. set_add (g a) s) s0 xs) = set s0 \<union> g ` set xs"
  by (induction xs arbitrary: s0) (auto simp: set_set_add)

lemma distinct_foldl_set_add:
  "distinct s0 \<Longrightarrow> distinct (foldl (\<lambda>s a. set_add (g a) s) s0 xs)"
  by (induction xs arbitrary: s0) (auto simp: distinct_set_add)

lemma findImplicitDependencies_Some:
  "findImplicitDependencies deps f = Some d \<Longrightarrow> d = FileEntry f \<and> d \<in> set deps"
  unfolding findImplicitDependencies_def
  by (induction deps) (auto split: if_splits elim: dep_file.elims)

lemma findImplicitDependencies_None:
  "findImplicitDependencies deps f = None \<longleftrightarrow> FileEntry f \<notin> set deps"
  unfolding findImplicitDependencies_def
  by (induction deps) (auto split: if_splits elim: dep_file.elims)

lemma findImplicitDependencies_eq:
  "findImplicitDependencies deps f = (if FileEntry f \<in> set deps then Some (FileEntry f) else None)"
  using findImplicitDependencies_None findImplicitDependencies_Some
  by (cases "findImplicitDependencies deps f") auto

lemma implicitHit_eq:
  "implicitHit allApps allLibs deps acc f =
     (if FileEntry f \<in> set deps
      then acc\<lparr>apps := foldl (\<lambda>s app. set_add (lastSegment app) s) (apps acc) allApps,
              libs := foldl (\<lambda>s lib. set_add (lastSegment lib) s) (libs acc) allLibs,
              implicitDependencies := implicitDependencies acc @ [f]\<rparr>
      else acc)"
  by (simp add: implicitHit_def findImplicitDependencies_eq)

lemma addProject_apps:
  "set (apps (addProject allApps allLibs acc p)) =
     set (apps acc) \<union> (if p \<in> set allApps then {lastSegment p} else {})"
  by (simp add: addProject_def Let_def set_set_add)

lemma addProject_libs:
  "set (libs (addProject allApps allLibs acc p)) =
     set (libs acc) \<union> (if p \<in> set allLibs then {lastSegment p} else {})"
  by (simp add: addProject_def Let_def set_set_add)

lemma addProject_implicit:
  "implicitDependencies (addProject allApps allLibs acc p) = implicitDependencies acc"
  by (simp add: addProject_def Let_def)

lemma addProject_distinct:
  "distinct (apps acc) \<Longrightarrow> distinct (libs acc) \<Longrightarrow>
   distinct (apps (addProject allApps allLibs acc p)) \<and> distinct (libs (addProject allApps allLibs acc p))"
  by (simp add: addProject_def Let_def distinct_set_add)

lemma foldl_addProject_apps:
  "set (apps (foldl (addProject allApps allLibs) acc ps)) =
     set (apps acc) \<union> lastSegment ` (set ps \<inter> set allApps)"
  by (induction ps arbitrary: acc) (auto simp: addProject_apps)

lemma foldl_addProject_libs:
  "set (libs (foldl (addProject allApps allLibs) acc ps)) =
     set (libs acc) \<union> lastSegment ` (set ps \<inter> set allLibs)"
  by (induction ps arbitrary: acc) (auto simp: addProject_libs)

lemma foldl_addProject_implicit:
  "implicitDependencies (foldl (addProject allApps allLibs) acc ps) = implicitDependencies acc"
  by (induction ps arbitrary: acc) (auto simp: addProject_implicit)

lemma foldl_addProject_distinct:
  "distinct (apps acc) \<Longrightarrow> distinct (libs acc) \<Longrightarrow>
   distinct (apps (foldl (addProject allApps allLibs) acc ps)) \<and>
   distinct (libs (foldl (addProject allApps allLibs) acc ps))"
proof (induction ps arbitrary: acc)
  case Nil
  then show ?case by simp
next
  case (Cons p ps)
  from addProject_distinct [OF Cons.prems, of allApps allLibs p]
  show ?case using Cons.IH by simp
qed

lemma libHit_apps:
  "set (apps (libHit allApps allLibs deps libsDir acc f)) =
     set (apps acc) \<union> set (apps (libHit allApps allLibs deps libsDir initialChanges f))"
  by (simp add: libHit_def Let_def initialChanges_def foldl_addProject_apps
      split: option.splits)

lemma libHit_libs:
  "set (libs (libHit allApps allLibs deps libsDir acc f)) =
     set (libs acc) \<union> set (libs (libHit allApps allLibs deps libsDir initialChanges f))"
  by (auto simp: libHit_def Let_def initialChanges_def foldl_addProject_libs set_set_add
      split: option.splits)

lemma libHit_implicit:
  "implicitDependencies (libHit allApps allLibs deps libsDir acc f) = implicitDependencies acc"
  by (simp add: libHit_def Let_def foldl_addProject_implicit split: option.splits)

lemma libHit_distinct:
  assumes "distinct (apps acc)" and "distinct (libs acc)"
  shows "distinct (apps (libHit allApps allLibs deps libsDir acc f)) \<and>
         distinct (libs (libHit allApps allLibs deps libsDir acc f))"
proof -
  have step: "distinct (apps (acc\<lparr>libs := set_add x (libs acc)\<rparr>)) \<and>
              distinct (libs (acc\<lparr>libs := set_add x (libs acc)\<rparr>))" for x
    using assms by (simp add: distinct_set_add)
  show ?thesis
    using assms step foldl_addProject_distinct
    by (simp add: libHit_def Let_def split: option.splits)
qed

lemma appHit_apps:
  "set (apps (appHit appsDir acc f)) =
     set (apps acc) \<union> set (apps (appHit appsDir initialChanges f))"
  by (simp add: appHit_def initialChanges_def set_set_add split: option.splits)

lemma appHit_libs: "libs (appHit appsDir acc f) = libs acc"
  by (simp add: appHit_def split: option.splits)

lemma appHit_implicit: "implicitDependencies (appHit appsDir acc f) = implicitDependencies acc"
  by (simp add: appHit_def split: option.splits)

lemma appHit_distinct:
  "distinct (apps acc) \<Longrightarrow> distinct (apps (appHit appsDir acc f))"
  by (simp add: appHit_def distinct_set_add split: option.splits)

lemma implicitHit_apps:
  "set (apps (implicitHit allApps allLibs deps acc f)) =
     set (apps acc) \<union> set (apps (implicitHit allApps allLibs deps initialChanges f))"
  by (simp add: implicitHit_eq initialChanges_def set_foldl_set_add)

lemma implicitHit_libs:
  "set (libs (implicitHit allApps allLibs deps acc f)) =
     set (libs acc) \<union> set (libs (implicitHit allApps allLibs deps initialChanges f))"
  by (simp add: implicitHit_eq initialChanges_def set_foldl_set_add)

lemma implicitHit_implicit:
  "implicitDependencies (implicitHit allApps allLibs deps acc f) =
     implicitDependencies acc @ implicitDependencies (implicitHit allApps allLibs deps initialChanges f)"
  by (simp add: implicitHit_eq initialChanges_def)

lemma implicitHit_distinct:
  "distinct (apps acc) \<Longrightarrow> distinct (libs acc) \<Longrightarrow>
   distinct (apps (implicitHit allApps allLibs deps acc f)) \<and>
   distinct (libs (implicitHit allApps allLibs deps acc f))"
  by (simp add: implicitHit_eq distinct_foldl_set_add)

lemma appHit_initial_libs: "libs (appHit appsDir initialChanges f) = []"
  by (simp add: appHit_libs) (simp add: initialChanges_def)

lemma reducer_apps:
  "set (apps (reducer appsDir libsDir allApps allLibs deps acc f)) =
     set (apps acc) \<union> set (apps (implicitHit allApps allLibs deps initialChanges f))
       \<union> set (apps (libHit allApps allLibs deps libsDir initialChanges f))
       \<union> set (apps (appHit appsDir initialChanges f))"
  unfolding reducer_def
  by (subst appHit_apps, subst libHit_apps, subst implicitHit_apps) simp

lemma reducer_libs:
  "set (libs (reducer appsDir libsDir allApps allLibs deps acc f)) =
     set (libs acc) \<union> set (libs (implicitHit allApps allLibs deps initialChanges f))
       \<union> set (libs (libHit allApps allLibs deps libsDir initialChanges f))"
  unfolding reducer_def
  by (simp only: appHit_libs, subst libHit_libs, subst implicitHit_libs) simp

lemma reducer_implicit:
  "implicitDependencies (reducer appsDir libsDir allApps allLibs deps acc f) =
     implicitDependencies acc @ implicitDependencies (implicitHit allApps allLibs deps initialChanges f)"
  unfolding reducer_def
  by (simp only: appHit_implicit libHit_implicit) (rule implicitHit_implicit)

lemma reducer_distinct:
  assumes "distinct (apps acc)" and "distinct (libs acc)"
  shows "distinct (apps (reducer appsDir libsDir allApps allLibs deps acc f)) \<and>
         distinct (libs (reducer appsDir libsDir allApps allLibs deps acc f))"
proof -
  let ?a1 = "implicitHit allApps allLibs deps acc f"
  let ?a2 = "libHit allApps allLibs deps libsDir ?a1 f"
  have d1: "distinct (apps ?a1) \<and> distinct (libs ?a1)"
    using assms by (rule implicitHit_distinct)
  then have d2: "distinct (apps ?a2) \<and> distinct (libs ?a2)"
    by (simp add: libHit_distinct)
  then show ?thesis
    by (simp add: reducer_def appHit_distinct appHit_libs)
qed

lemma initialChanges_fields:
  "apps initialChanges = []" "libs initialChanges = []" "implicitDependencies initialChanges = []"
  by (simp_all add: initialChanges_def)

lemma reducer_apps_acc:
  "set (apps (reducer appsDir libsDir allApps allLibs deps acc f)) =
     set (apps acc) \<union> set (apps (reducer appsDir libsDir allApps allLibs deps initialChanges f))"
  using reducer_apps [of appsDir libsDir allApps allLibs deps acc f]
    reducer_apps [of appsDir libsDir allApps allLibs deps initialChanges f]
  by (simp add: initialChanges_fields Un_assoc)

lemma reducer_libs_acc:
  "set (libs (reducer appsDir libsDir allApps allLibs deps acc f)) =
     set (libs acc) \<union> set (libs (reducer appsDir libsDir allApps allLibs deps initialChanges f))"
  using reducer_libs [of appsDir libsDir allApps allLibs deps acc f]
    reducer_libs [of appsDir libsDir allApps allLibs deps initialChanges f]
  by (simp add: initialChanges_fields Un_assoc)

lemma reducer_implicit_acc:
  "implicitDependencies (reducer appsDir libsDir allApps allLibs deps acc f) =
     implicitDependencies acc @
     implicitDependencies (reducer appsDir libsDir allApps allLibs deps initialChanges f)"
  using reducer_implicit [of appsDir libsDir allApps allLibs deps acc f]
    reducer_implicit [of appsDir libsDir allApps allLibs deps initialChanges f]
  by (simp add: initialChanges_fields)

lemma foldl_reducer_apps:
  "set (apps (foldl (reducer appsDir libsDir allApps allLibs deps) acc fs)) =
     set (apps acc) \<union>
     (\<Union>f\<in>set fs. set (apps (reducer appsDir libsDir allApps allLibs deps initialChanges f)))"
proof (induction fs arbitrary: acc)
  case Nil
  show ?case by simp
next
  case (Cons f fs)
  show ?case
    by (simp add: Cons.IH, subst reducer_apps_acc) auto
qed

lemma foldl_reducer_libs:
  "set (libs (foldl (reducer appsDir libsDir allApps allLibs deps) acc fs)) =
     set (libs acc) \<union>
     (\<Union>f\<in>set fs. set (libs (reducer appsDir libsDir allApps allLibs deps initialChanges f)))"
proof (induction fs arbitrary: acc)
  case Nil
  show ?case by simp
next
  case (Cons f fs)
  show ?case
    by (simp add: Cons.IH, subst reducer_libs_acc) auto
qed

lemma foldl_reducer_implicit:
  "implicitDependencies (foldl (reducer appsDir libsDir allApps allLibs deps) acc fs) =
     implicitDependencies acc @
     concat (map (\<lambda>f. implicitDependencies
               (reducer appsDir libsDir allApps allLibs deps initialChanges f)) fs)"
proof (induction fs arbitrary: acc)
  case Nil
  show ?case by simp
next
  case (Cons f fs)
  show ?case
    by (simp add: Cons.IH, subst reducer_implicit_acc) simp
qed

lemma foldl_reducer_distinct:
  "distinct (apps acc) \<Longrightarrow> distinct (libs acc) \<Longrightarrow>
   distinct (apps (foldl (reducer appsDir libsDir allApps allLibs deps) acc fs)) \<and>
   distinct (libs (foldl (reducer appsDir libsDir allApps allLibs deps) acc fs))"
proof (induction fs arbitrary: acc)
  case Nil
  then show ?case by simp
next
  case (Cons f fs)
  from reducer_distinct [OF Cons.prems, of appsDir libsDir allApps allLibs deps f]
  show ?case using Cons.IH by simp
qed

lemma accumulate_apps:
  "set (apps (accumulate appsDir libsDir allApps allLibs deps fs)) =
     (\<Union>f\<in>set fs. set (apps (reducer appsDir libsDir allApps allLibs deps initialChanges f)))"
  by (simp add: accumulate_def foldl_reducer_apps initialChanges_fields)

lemma accumulate_libs:
  "set (libs (accumulate appsDir libsDir allApps allLibs deps fs)) =
     (\<Union>f\<in>set fs. set (libs (reducer appsDir libsDir allApps allLibs deps initialChanges f)))"
  by (simp add: accumulate_def foldl_reducer_libs initialChanges_fields)

lemma accumulate_implicit:
  "implicitDependencies (accumulate appsDir libsDir allApps allLibs deps fs) =
     concat (map (\<lambda>f. implicitDependencies
               (reducer appsDir libsDir allApps allLibs deps initialChanges f)) fs)"
  by (simp add: accumulate_def foldl_reducer_implicit initialChanges_fields)

lemma getChanges_fields:
  "apps (getChanges appsDir libsDir allApps allLibs deps fs ign) =
     filter (\<lambda>name. name \<notin> set ign) (apps (accumulate appsDir libsDir allApps allLibs deps fs))"
  "libs (getChanges appsDir libsDir allApps allLibs deps fs ign) =
     libs (accumulate appsDir libsDir allApps allLibs deps fs)"
  "implicitDependencies (getChanges appsDir libsDir allApps allLibs deps fs ign) =
     implicitDependencies (accumulate appsDir libsDir allApps allLibs deps fs)"
  by (simp_all add: getChanges_def Let_def)

lemma js_split_no_sep: "sep \<notin> set s \<Longrightarrow> js_split sep s = [s]"
  by (induction s) auto

lemma js_split_append:
  "js_split sep (xs @ sep # ys) = js_split sep xs @ js_split sep ys"
  by (induction xs) (auto simp: js_split_not_Nil split: list.splits)

lemma last_js_split_append:
  "last (js_split sep (xs @ sep # ys)) = last (js_split sep ys)"
  by (simp add: js_split_append js_split_not_Nil)

lemma lastSegment_no_slash: "CHR ''/'' \<notin> set s \<Longrightarrow> lastSegment s = s"
  by (simp add: lastSegment_def js_split_no_sep)

lemma lastSegment_append:
  "CHR ''/'' \<notin> set name \<Longrightarrow> lastSegment (dir @ CHR ''/'' # name) = name"
  by (simp add: lastSegment_def last_js_split_append js_split_no_sep)

lemma matchHere_inside:
  assumes "name \<noteq> []" and "CHR ''/'' \<notin> set name" and "\<not> lineTerminator d"
  shows "matchHere dir (dir @ CHR ''/'' # name @ CHR ''/'' # d # rst) = Some (dir @ CHR ''/'' # name)"
proof -
  have tw: "takeWhile (\<lambda>x. x \<noteq> CHR ''/'') (name @ CHR ''/'' # d # rst) = name"
    using assms(2) by (auto simp: takeWhile_tail)
  have dw: "dropWhile (\<lambda>x. x \<noteq> CHR ''/'') (name @ CHR ''/'' # d # rst) = CHR ''/'' # d # rst"
    using assms(2) by (auto simp: dropWhile_append3)
  show ?thesis
    using assms(1,3) by (simp add: matchHere_def tw dw)
qed

lemma dirFinder_inside:
  assumes "name \<noteq> []" and "CHR ''/'' \<notin> set name" and "\<not> lineTerminator d"
  shows "dirFinder dir (dir @ CHR ''/'' # name @ CHR ''/'' # d # rst) = Some (dir @ CHR ''/'' # name)"
proof (cases dir)
  case Nil
  with matchHere_inside [OF assms, of "[]" rst] show ?thesis
    by (simp add: dirFinder_def)
next
  case (Cons c cs)
  with matchHere_inside [OF assms, of "c # cs" rst] show ?thesis
    by (simp add: dirFinder_def)
qed




lemma matchHere_Some:
  assumes "matchHere dir s = Some m"
  shows "\<exists>seg. m = dir @ CHR ''/'' # seg \<and> seg \<noteq> [] \<and> CHR ''/'' \<notin> set seg"
proof -
  from assms obtain r where m: "m = dir @ CHR ''/'' # takeWhile (\<lambda>x. x \<noteq> CHR ''/'') r"
    and ne: "takeWhile (\<lambda>x. x \<noteq> CHR ''/'') r \<noteq> []"
    by (auto simp: matchHere_def Let_def split: if_splits list.splits)
  have "CHR ''/'' \<notin> set (takeWhile (\<lambda>x. x \<noteq> CHR ''/'') r)"
    using set_takeWhileD by fastforce
  with m ne show ?thesis by blast
qed

lemma matchFrom_Some:
  "matchFrom dir s = Some m \<Longrightarrow>
   \<exists>seg. m = dir @ CHR ''/'' # seg \<and> seg \<noteq> [] \<and> CHR ''/'' \<notin> set seg"
proof (induction s)
  case Nil
  then show ?case using matchHere_Some [of dir "[]" m] by simp
next
  case (Cons c cs)
  then show ?case
    using matchHere_Some [of dir "c # cs" m] by (auto split: option.splits)
qed

lemma dirFinder_Some:
  assumes "dirFinder dir f = Some m"
  shows "m \<noteq> []" and "lastSegment m \<noteq> []" and "CHR ''/'' \<notin> set (lastSegment m)"
    and "m = dir @ CHR ''/'' # lastSegment m"
proof -
  from assms obtain seg where m: "m = dir @ CHR ''/'' # seg" and seg: "seg \<noteq> []" "CHR ''/'' \<notin> set seg"
    unfolding dirFinder_def using matchFrom_Some by blast
  then have "lastSegment m = seg" by (simp add: lastSegment_append)
  with m seg show "m \<noteq> []" "lastSegment m \<noteq> []" "CHR ''/'' \<notin> set (lastSegment m)"
    "m = dir @ CHR ''/'' # lastSegment m" by simp_all
qed

lemma appHit_Some:
  "dirFinder appsDir f = Some app \<Longrightarrow>
   appHit appsDir acc f = acc\<lparr>apps := set_add (lastSegment app) (apps acc)\<rparr>"
  using dirFinder_Some(1) [of appsDir f app] by (simp add: appHit_def)



lemma find_key_unique:
  "KeyEntry k ps \<in> set deps \<Longrightarrow>
   \<forall>ps'. KeyEntry k ps' \<in> set deps \<longrightarrow> ps' = ps \<Longrightarrow>
   find (\<lambda>dependency. dep_key dependency = Some k) deps = Some (KeyEntry k ps)"
proof (induction deps)
  case Nil
  then show ?case by simp
next
  case (Cons d ds)
  show ?case
  proof (cases "dep_key d = Some k")
    case True
    then obtain ps' where d: "d = KeyEntry k ps'" by (cases d) auto
    then have "KeyEntry k ps' \<in> set (d # ds)" by simp
    with Cons.prems(2) have "ps' = ps" by blast
    with d show ?thesis by simp
  next
    case False
    with Cons.prems(1) have "KeyEntry k ps \<in> set ds" by auto
    moreover from Cons.prems(2) have "\<forall>ps'. KeyEntry k ps' \<in> set ds \<longrightarrow> ps' = ps"
      by auto
    ultimately have "find (\<lambda>dependency. dep_key dependency = Some k) ds = Some (KeyEntry k ps)"
      by (rule Cons.IH)
    with False show ?thesis by simp
  qed
qed

lemma libHit_Some_libs:
  assumes "dirFinder libsDir f = Some lib"
  shows "lastSegment lib \<in> set (libs (libHit allApps allLibs deps libsDir acc f))"
  using dirFinder_Some(1) [OF assms]
  by (simp add: libHit_def assms Let_def foldl_addProject_libs set_set_add split: option.splits)

lemma libHit_Some_key:
  assumes "dirFinder libsDir f = Some lib"
    and "find (\<lambda>dependency. dep_key dependency = Some (lastSegment lib)) deps = Some (KeyEntry k ps)"
  shows "libHit allApps allLibs deps libsDir acc f =
     foldl (addProject allApps allLibs) (acc\<lparr>libs := set_add (lastSegment lib) (libs acc)\<rparr>) ps"
  using dirFinder_Some(1) [OF assms(1)]
  by (simp add: libHit_def assms Let_def)

lemma in_accumulate_apps:
  assumes "f \<in> set fs"
    and "x \<in> set (apps (implicitHit allApps allLibs deps initialChanges f)) \<or>
         x \<in> set (apps (libHit allApps allLibs deps libsDir initialChanges f)) \<or>
         x \<in> set (apps (appHit appsDir initialChanges f))"
  shows "x \<in> set (apps (accumulate appsDir libsDir allApps allLibs deps fs))"
proof -
  from assms(2) have "x \<in> set (apps (reducer appsDir libsDir allApps allLibs deps initialChanges f))"
    by (auto simp: reducer_apps)
  with assms(1) show ?thesis
    by (auto simp: accumulate_apps)
qed

lemma in_accumulate_libs:
  assumes "f \<in> set fs"
    and "x \<in> set (libs (implicitHit allApps allLibs deps initialChanges f)) \<or>
         x \<in> set (libs (libHit allApps allLibs deps libsDir initialChanges f))"
  shows "x \<in> set (libs (accumulate appsDir libsDir allApps allLibs deps fs))"
proof -
  from assms(2) have "x \<in> set (libs (reducer appsDir libsDir allApps allLibs deps initialChanges f))"
    by (auto simp: reducer_libs)
  with assms(1) show ?thesis
    by (auto simp: accumulate_libs)
qed

lemma in_accumulate_implicit:
  assumes "f \<in> set fs"
    and "x \<in> set (implicitDependencies (implicitHit allApps allLibs deps initialChanges f))"
  shows "x \<in> set (implicitDependencies (accumulate appsDir libsDir allApps allLibs deps fs))"
proof -
  from assms(2)
  have "x \<in> set (implicitDependencies (reducer appsDir libsDir allApps allLibs deps initialChanges f))"
    by (simp add: reducer_implicit initialChanges_fields)
  with assms(1) show ?thesis
    by (auto simp: accumulate_implicit)
qed

lemma ignore_absent_from_apps:
  "name \<in> set ign \<Longrightarrow>
   name \<notin> set (apps (getChanges appsDir libsDir allApps allLibs deps changedFiles ign))"
  by (simp add: getChanges_fields)

lemma app_hit_in_result:
  assumes "literalDir appsDir"
    and "f \<in> set changedFiles"
    and "f = appsDir @ CHR ''/'' # name @ CHR ''/'' # d # rst"
    and "name \<noteq> []" and "CHR ''/'' \<notin> set name" and "\<not> lineTerminator d"
    and "name \<notin> set ign"
  shows "name \<in> set (apps (getChanges appsDir libsDir allApps allLibs deps changedFiles ign))"
proof -
  have "dirFinder appsDir f = Some (appsDir @ CHR ''/'' # name)"
    unfolding assms(3) using assms(4-6) by (rule dirFinder_inside)
  then have "appHit appsDir initialChanges f =
      initialChanges\<lparr>apps := set_add (lastSegment (appsDir @ CHR ''/'' # name)) (apps initialChanges)\<rparr>"
    by (rule appHit_Some)
  then have "name \<in> set (apps (appHit appsDir initialChanges f))"
    using assms(5) by (simp add: lastSegment_append set_set_add)
  with assms(2) have "name \<in> set (apps (accumulate appsDir libsDir allApps allLibs deps changedFiles))"
    by (simp add: in_accumulate_apps)
  with assms(7) show ?thesis
    by (simp add: getChanges_fields)
qed

lemma selectRefs_other:
  assumes "eventName ctx \<noteq> ''pull_request''" and "eventName ctx \<noteq> ''push''"
  shows "selectRefs ctx b h =
     (if b = [] \<or> h = [] then Inl (MissingRefsForEvent (eventName ctx)) else Inr (Some b, Some h))"
  using assms by (simp add: selectRefs_def falsy_def)

lemma parseIgnore_not_array:
  "\<forall>xs. JSON_parse ign \<noteq> Some (JArray xs) \<Longrightarrow> parseIgnore JSON_parse ign = []"
  by (auto simp: parseIgnore_def split: option.splits json.splits)

lemma manual_event_missing_refs:
  assumes "eventName ctx \<noteq> ''pull_request''" and "eventName ctx \<noteq> ''push''"
  shows "getBaseAndHeadRefs ctx JSON_parse b h ign = Inl (MissingRefsForEvent (eventName ctx))
           \<longleftrightarrow> b = [] \<or> h = []"
  by (simp add: getBaseAndHeadRefs_def selectRefs_other [OF assms] Let_def)

lemma manual_event_returns_pair:
  assumes "eventName ctx \<noteq> ''pull_request''" and "eventName ctx \<noteq> ''push''"
    and "b \<noteq> []" and "h \<noteq> []"
    and "\<not> list_ex toStringThrows (parseIgnore JSON_parse ign)"
  shows "getBaseAndHeadRefs ctx JSON_parse b h ign =
           Inr \<lparr>base = b, head = h, ignore = parseIgnore JSON_parse ign\<rparr>"
  using assms(3-5) by (simp add: getBaseAndHeadRefs_def selectRefs_other [OF assms(1,2)])

lemma failure_sends_no_request:
  "getBaseAndHeadRefs ctx JSON_parse b h ign = Inl e \<Longrightarrow>
   main_changedFiles ctx JSON_parse compareCommits b h ign = ([], Inl e)"
  by (simp add: main_changedFiles_def)

lemma ignore_is_final_filter:
  "getChanges appsDir libsDir allApps allLibs deps changedFiles ign =
     (getChanges appsDir libsDir allApps allLibs deps changedFiles [])
       \<lparr>apps := filter (\<lambda>name. name \<notin> set ign)
                  (apps (getChanges appsDir libsDir allApps allLibs deps changedFiles []))\<rparr>"
  by (simp add: getChanges_def Let_def)

lemma ignore_absent_in_part_000:
  "name \<in> set ign \<Longrightarrow>
   name \<notin> set (apps (getChanges_part_000 appsDir libsDir deps changedFiles ign)) \<and>
   name \<notin> set (libs (getChanges_part_000 appsDir libsDir deps changedFiles ign))"
  by (simp add: getChanges_part_000_def Let_def)

lemma tableKeys_simps:
  "tableKeys [] = []"
  "tableKeys (KeyEntry k ps # deps) = k # tableKeys deps"
  "tableKeys (FileEntry f # deps) = tableKeys deps"
  by (simp_all add: tableKeys_def List.map_filter_simps)

lemma tableKeys_addDependent:
  "tableKeys (addDependent name deps key) =
     (if key \<in> set (tableKeys deps) then tableKeys deps else tableKeys deps @ [key])"
  by (induction name deps key rule: addDependent.induct) (auto simp: tableKeys_simps)

lemma distinct_addDependent:
  "distinct (tableKeys deps) \<Longrightarrow> distinct (tableKeys (addDependent name deps key))"
  by (simp add: tableKeys_addDependent)

lemma distinct_foldl_addDependent:
  "distinct (tableKeys deps) \<Longrightarrow> distinct (tableKeys (foldl (addDependent name) deps keys))"
  by (induction keys arbitrary: deps) (simp_all add: distinct_addDependent)

lemma distinct_foldl_projects:
  "distinct (tableKeys deps) \<Longrightarrow>
   distinct (tableKeys (foldl (\<lambda>result (name, keys). foldl (addDependent name) result keys)
                          deps projects))"
  by (induction projects arbitrary: deps) (auto simp: distinct_foldl_addDependent)

lemma tableKeys_append: "tableKeys (xs @ ys) = tableKeys xs @ tableKeys ys"
  by (simp add: tableKeys_def List.map_filter_def)

lemma tableKeys_files: "tableKeys (map FileEntry files) = []"
  by (induction files) (simp_all add: tableKeys_simps)

lemma distinct_keys_buildImplicitDependencies:
  "distinct (tableKeys (buildImplicitDependencies files projects))"
  by (simp add: buildImplicitDependencies_def groupByKey_def tableKeys_append tableKeys_files
      distinct_foldl_projects tableKeys_simps)

lemma distinct_keys_one_entry:
  "distinct (tableKeys deps) \<Longrightarrow> KeyEntry k ps \<in> set deps \<Longrightarrow> KeyEntry k ps' \<in> set deps \<Longrightarrow>
   ps' = ps"
proof (induction deps)
  case Nil
  then show ?case by simp
next
  case (Cons d deps)
  have in_keys: "k \<in> set (tableKeys deps)" if "KeyEntry k qs \<in> set deps" for qs
    using that by (force simp: tableKeys_def List.map_filter_def)
  show ?case
  proof (cases d)
    case (FileEntry f)
    with Cons show ?thesis by (simp add: tableKeys_simps)
  next
    case (KeyEntry k' qs)
    with Cons.prems(1) have d: "k' \<notin> set (tableKeys deps)" "distinct (tableKeys deps)"
      by (simp_all add: tableKeys_simps)
    show ?thesis
    proof (cases "k' = k")
      case True
      with d(1) in_keys have "KeyEntry k ps \<notin> set deps" "KeyEntry k ps' \<notin> set deps"
        by blast+
      with Cons.prems(2,3) KeyEntry show ?thesis by simp
    next
      case False
      with Cons.prems(2,3) KeyEntry have "KeyEntry k ps \<in> set deps" "KeyEntry k ps' \<in> set deps"
        by simp_all
      with Cons.IH d(2) show ?thesis by blast
    qed
  qed
qed

lemma buildImplicitDependencies_one_entry:
  "KeyEntry k ps \<in> set (buildImplicitDependencies files projects) \<Longrightarrow>
   \<forall>ps'. KeyEntry k ps' \<in> set (buildImplicitDependencies files projects) \<longrightarrow> ps' = ps"
  using distinct_keys_one_entry [OF distinct_keys_buildImplicitDependencies] by blast

section \<open>The claims\<close>

subsection \<open>The ignore list\<close>

text \<open>
  Claim C1. The ignore list is applied, by equality of names, to both output lists once
  all propagation is done: no name of the ignore list is in the returned \<open>apps\<close> list or in
  the returned \<open>libs\<close> list.

  The \<open>getChanges\<close> of main.ts filters \<open>apps\<close> and returns \<open>libs\<close> as accumulated (line 168),
  so an ignored library that a changed file touches is still returned. The theorem
  evaluates \<open>getChanges\<close> on such an input: \<open>core\<close> is in the ignore list and in the returned
  \<open>libs\<close>. The rest of the claim holds: no ignored name is in \<open>apps\<close>
  (\<open>ignore_absent_from_apps\<close>), and the ignore list takes no part in the fold
  (\<open>ignore_is_final_filter\<close>). The earlier \<open>getChanges\<close> filters both lists
  (\<open>ignore_absent_in_part_000\<close>).
\<close>

theorem ignore_not_applied_to_libs:
  "''core'' \<in> set [''core''] \<and>
   getChanges ''apps'' ''libs'' [] [''core''] [] [''libs/core/src/util.ts''] [''core'']
     = \<lparr>apps = [], libs = [''core''], implicitDependencies = []\<rparr>"
  by code_simp

subsection \<open>A changed global file\<close>

text \<open>
  Claim C2. When a changed file is the file of a global entry of the table, that file is
  recorded in \<open>implicitDependencies\<close>, and every name of \<open>allApps\<close> is in \<open>apps\<close> and every name of
  \<open>allLibs\<close> is in \<open>libs\<close>, unless the name is in the ignore list. The names of \<open>allApps\<close> and
  \<open>allLibs\<close> are entries of a directory listing (main.ts, lines 221-222) and so contain no
  slash; what the source adds for a name is its last path segment, which for such a name
  is the name.
\<close>

theorem global_file_marks_everything:
  assumes "f \<in> set changedFiles" and "FileEntry f \<in> set deps"
  shows "f \<in> set (implicitDependencies
                 (getChanges appsDir libsDir allApps allLibs deps changedFiles ign)) \<and>
         (\<forall>a. a \<in> set allApps \<and> CHR ''/'' \<notin> set a \<and> a \<notin> set ign \<longrightarrow>
              a \<in> set (apps (getChanges appsDir libsDir allApps allLibs deps changedFiles ign))) \<and>
         (\<forall>l. l \<in> set allLibs \<and> CHR ''/'' \<notin> set l \<and> l \<notin> set ign \<longrightarrow>
              l \<in> set (libs (getChanges appsDir libsDir allApps allLibs deps changedFiles ign)))"
proof (intro conjI allI impI)
  show "f \<in> set (implicitDependencies
                 (getChanges appsDir libsDir allApps allLibs deps changedFiles ign))"
    using assms by (simp add: getChanges_fields in_accumulate_implicit implicitHit_eq)
next
  fix a
  assume a: "a \<in> set allApps \<and> CHR ''/'' \<notin> set a \<and> a \<notin> set ign"
  then have "lastSegment a = a" by (simp add: lastSegment_no_slash)
  with a have "a \<in> set (apps (implicitHit allApps allLibs deps initialChanges f))"
    using assms(2) by (force simp: implicitHit_eq set_foldl_set_add)
  with assms(1) have "a \<in> set (apps (accumulate appsDir libsDir allApps allLibs deps changedFiles))"
    by (simp add: in_accumulate_apps)
  with a show "a \<in> set (apps (getChanges appsDir libsDir allApps allLibs deps changedFiles ign))"
    by (simp add: getChanges_fields)
next
  fix l
  assume l: "l \<in> set allLibs \<and> CHR ''/'' \<notin> set l \<and> l \<notin> set ign"
  then have "lastSegment l = l" by (simp add: lastSegment_no_slash)
  with l have "l \<in> set (libs (implicitHit allApps allLibs deps initialChanges f))"
    using assms(2) by (force simp: implicitHit_eq set_foldl_set_add)
  with assms(1) have "l \<in> set (libs (accumulate appsDir libsDir allApps allLibs deps changedFiles))"
    by (simp add: in_accumulate_libs)
  then show "l \<in> set (libs (getChanges appsDir libsDir allApps allLibs deps changedFiles ign))"
    by (simp add: getChanges_fields)
qed

theorem global_file_marks_everything_witness:
  "''nx.json'' \<in> set [''nx.json''] \<and> FileEntry ''nx.json'' \<in> set [FileEntry ''nx.json''] \<and>
   ''nx.json'' \<in> set (implicitDependencies
        (getChanges ''apps'' ''libs'' [''web''] [''core''] [FileEntry ''nx.json''] [''nx.json''] [])) \<and>
   ''web'' \<in> set (apps
        (getChanges ''apps'' ''libs'' [''web''] [''core''] [FileEntry ''nx.json''] [''nx.json''] [])) \<and>
   ''core'' \<in> set (libs
        (getChanges ''apps'' ''libs'' [''web''] [''core''] [FileEntry ''nx.json''] [''nx.json''] []))"
proof -
  have f: "''nx.json'' \<in> set [''nx.json'']" by simp
  have d: "FileEntry ''nx.json'' \<in> set [FileEntry ''nx.json'']" by simp
  note t = global_file_marks_everything [OF f d, where allApps = "[''web'']"
      and allLibs = "[''core'']" and ign = "[]" and appsDir = "''apps''" and libsDir = "''libs''"]
  have a: "''web'' \<in> set [''web''] \<and> CHR ''/'' \<notin> set ''web'' \<and> ''web'' \<notin> set []" by simp
  have l: "''core'' \<in> set [''core''] \<and> CHR ''/'' \<notin> set ''core'' \<and> ''core'' \<notin> set []" by simp
  from t a l f d show ?thesis by blast
qed

subsection \<open>A changed library and its fan-out\<close>

text \<open>
  Claim C3. When a changed file matches the pattern of the library directory, with the
  library name \<open>lastSegment lib\<close> of the captured group \<open>lib\<close>, that library is in \<open>libs\<close>;
  and if the table has an entry with that key, every project of the entry that is a name
  of \<open>allApps\<close> is in \<open>apps\<close>, every one that is a name of \<open>allLibs\<close> is in \<open>libs\<close>, and a project
  that is in neither list leaves the accumulator as it was. The table has one entry for a
  key, as the table that \<^verbatim>\<open>main\<close> builds has (\<open>buildImplicitDependencies_one_entry\<close>).
  Membership in the output is stated for names outside the ignore list.
\<close>

theorem lib_hit_fans_out:
  assumes "literalDir libsDir"
    and "f \<in> set changedFiles"
    and "dirFinder libsDir f = Some lib"
  shows "(lastSegment lib \<notin> set ign \<longrightarrow>
            lastSegment lib \<in> set (libs (getChanges appsDir libsDir allApps allLibs deps changedFiles ign))) \<and>
         (\<forall>ps p. KeyEntry (lastSegment lib) ps \<in> set deps \<and>
                 (\<forall>ps'. KeyEntry (lastSegment lib) ps' \<in> set deps \<longrightarrow> ps' = ps) \<and>
                 p \<in> set ps \<and> CHR ''/'' \<notin> set p \<and> p \<notin> set ign \<longrightarrow>
            (p \<in> set allApps \<longrightarrow>
               p \<in> set (apps (getChanges appsDir libsDir allApps allLibs deps changedFiles ign))) \<and>
            (p \<in> set allLibs \<longrightarrow>
               p \<in> set (libs (getChanges appsDir libsDir allApps allLibs deps changedFiles ign)))) \<and>
         (\<forall>p acc. p \<notin> set allApps \<and> p \<notin> set allLibs \<longrightarrow> addProject allApps allLibs acc p = acc)"
proof (intro conjI allI impI)
  show "lastSegment lib \<in> set (libs (getChanges appsDir libsDir allApps allLibs deps changedFiles ign))"
    using assms(2) libHit_Some_libs [OF assms(3)]
    by (simp add: getChanges_fields in_accumulate_libs)
next
  fix ps p
  assume h: "KeyEntry (lastSegment lib) ps \<in> set deps \<and>
     (\<forall>ps'. KeyEntry (lastSegment lib) ps' \<in> set deps \<longrightarrow> ps' = ps) \<and>
     p \<in> set ps \<and> CHR ''/'' \<notin> set p \<and> p \<notin> set ign"
  then have "find (\<lambda>dependency. dep_key dependency = Some (lastSegment lib)) deps =
      Some (KeyEntry (lastSegment lib) ps)"
    by (simp add: find_key_unique)
  then have hit: "libHit allApps allLibs deps libsDir initialChanges f =
      foldl (addProject allApps allLibs)
        (initialChanges\<lparr>libs := set_add (lastSegment lib) (libs initialChanges)\<rparr>) ps"
    using assms(3) by (rule libHit_Some_key [rotated])
  from h have p: "p \<in> set ps" "lastSegment p = p" "p \<notin> set ign"
    by (simp_all add: lastSegment_no_slash)
  {
    assume "p \<in> set allApps"
    with p have "p \<in> set (apps (libHit allApps allLibs deps libsDir initialChanges f))"
      unfolding hit foldl_addProject_apps by force
    with assms(2) have "p \<in> set (apps (accumulate appsDir libsDir allApps allLibs deps changedFiles))"
      by (simp add: in_accumulate_apps)
    with p show "p \<in> set (apps (getChanges appsDir libsDir allApps allLibs deps changedFiles ign))"
      by (simp add: getChanges_fields)
  }
  {
    assume "p \<in> set allLibs"
    with p have "p \<in> set (libs (libHit allApps allLibs deps libsDir initialChanges f))"
      unfolding hit foldl_addProject_libs by force
    with assms(2) show "p \<in> set (libs (getChanges appsDir libsDir allApps allLibs deps changedFiles ign))"
      by (simp add: getChanges_fields in_accumulate_libs)
  }
next
  fix p acc
  assume "p \<notin> set allApps \<and> p \<notin> set allLibs"
  then show "addProject allApps allLibs acc p = acc"
    by (simp add: addProject_def)
qed

theorem lib_hit_fans_out_witness:
  "literalDir ''libs'' \<and>
   dirFinder ''libs'' ''libs/core/src/util.ts'' = Some ''libs/core'' \<and>
   lastSegment ''libs/core'' = ''core'' \<and>
   ''core'' \<in> set (libs (getChanges ''apps'' ''libs'' [''web'', ''admin''] [''core'']
        [KeyEntry ''core'' [''web'', ''admin'', ''ghost'']] [''libs/core/src/util.ts''] [])) \<and>
   ''web'' \<in> set (apps (getChanges ''apps'' ''libs'' [''web'', ''admin''] [''core'']
        [KeyEntry ''core'' [''web'', ''admin'', ''ghost'']] [''libs/core/src/util.ts''] [])) \<and>
   ''admin'' \<in> set (apps (getChanges ''apps'' ''libs'' [''web'', ''admin''] [''core'']
        [KeyEntry ''core'' [''web'', ''admin'', ''ghost'']] [''libs/core/src/util.ts''] [])) \<and>
   addProject [''web'', ''admin''] [''core''] initialChanges ''ghost'' = initialChanges"
proof -
  have l: "literalDir ''libs''"
    by (simp add: literalDir_def syntaxCharacter_def)
  have f: "''libs/core/src/util.ts'' \<in> set [''libs/core/src/util.ts'']"
    by simp
  have m: "dirFinder ''libs'' ''libs/core/src/util.ts'' = Some ''libs/core''"
    by code_simp
  have s: "lastSegment ''libs/core'' = ''core''"
    by code_simp
  note t = lib_hit_fans_out [OF l f m, where allApps = "[''web'', ''admin'']"
      and allLibs = "[''core'']" and deps = "[KeyEntry ''core'' [''web'', ''admin'', ''ghost'']]"
      and ign = "[]" and appsDir = "''apps''", unfolded s]
  have k: "KeyEntry ''core'' [''web'', ''admin'', ''ghost''] \<in>
             set [KeyEntry ''core'' [''web'', ''admin'', ''ghost'']] \<and>
           (\<forall>ps'. KeyEntry ''core'' ps' \<in> set [KeyEntry ''core'' [''web'', ''admin'', ''ghost'']]
              \<longrightarrow> ps' = [''web'', ''admin'', ''ghost''])"
    by simp
  have c: "''core'' \<in> set (libs (getChanges ''apps'' ''libs'' [''web'', ''admin''] [''core'']
        [KeyEntry ''core'' [''web'', ''admin'', ''ghost'']] [''libs/core/src/util.ts''] []))"
    using t [THEN conjunct1] by simp
  have w: "''web'' \<in> set (apps (getChanges ''apps'' ''libs'' [''web'', ''admin''] [''core'']
        [KeyEntry ''core'' [''web'', ''admin'', ''ghost'']] [''libs/core/src/util.ts''] []))"
    using t [THEN conjunct2, THEN conjunct1, rule_format,
        of "[''web'', ''admin'', ''ghost'']" "''web''", THEN conjunct1] k
    by simp
  have a: "''admin'' \<in> set (apps (getChanges ''apps'' ''libs'' [''web'', ''admin''] [''core'']
        [KeyEntry ''core'' [''web'', ''admin'', ''ghost'']] [''libs/core/src/util.ts''] []))"
    using t [THEN conjunct2, THEN conjunct1, rule_format,
        of "[''web'', ''admin'', ''ghost'']" "''admin''", THEN conjunct1] k
    by simp
  have g: "addProject [''web'', ''admin''] [''core''] initialChanges ''ghost'' = initialChanges"
    using t [THEN conjunct2, THEN conjunct2, rule_format, of "''ghost''" initialChanges]
    by simp
  from l m s c w a g show ?thesis by (intro conjI)
qed

subsection \<open>A changed file inside an application\<close>

text \<open>
  Claim C4. For every changed file of the form \<open>appsDir/name/rest\<close>, with \<open>rest\<close> at least one
  more component, \<open>name\<close> is in the returned \<open>apps\<close> unless it is in the ignore list.

  The pattern ends in \<^verbatim>\<open>\/.+\<close>, and \<open>.\<close> does not accept a line terminator, so a path whose
  next component starts with a line feed is not matched: the theorem evaluates
  \<open>getChanges\<close> on the one changed file \<open>apps/web/<LF>notes.txt\<close>, and \<open>web\<close> is not in \<open>apps\<close>.
  For every other first character of \<open>rest\<close> the claim holds (\<open>app_hit_in_result\<close>).
\<close>

theorem app_hit_missed_after_line_terminator:
  "getChanges ''apps'' ''libs'' [''web''] [] [] [''apps/web/\<newline>notes.txt''] []
     = \<lparr>apps = [], libs = [], implicitDependencies = []\<rparr>"
  by code_simp

subsection \<open>A file directly in a root directory\<close>



subsection \<open>The pattern is not anchored\<close>

text \<open>
  Claim C6. The pattern is not anchored to the start of the path: the changed file
  \<open>vendor/apps/web/x.ts\<close> does not start with the applications root \<open>apps\<close>, and it is
  still classified as a file of the application \<open>web\<close>, which is returned in \<open>apps\<close>.
\<close>

theorem matcher_not_anchored:
  "take (length ''apps'') ''vendor/apps/web/x.ts'' \<noteq> ''apps'' \<and>
   dirFinder ''apps'' ''vendor/apps/web/x.ts'' = Some ''apps/web'' \<and>
   getChanges ''apps'' ''libs'' [''web''] [] [] [''vendor/apps/web/x.ts''] []
     = \<lparr>apps = [''web''], libs = [], implicitDependencies = []\<rparr>"
  by code_simp

subsection \<open>The three rules do not exclude each other\<close>

text \<open>
  Claim C7. For one changed file the three rules (global file, library with fan-out,
  application) are evaluated one after the other with no short-circuit: what the file
  adds to the accumulator is the union of what each rule alone adds to it.
\<close>

theorem rules_fire_independently:
  "set (apps (reducer appsDir libsDir allApps allLibs deps acc f)) =
     set (apps (implicitHit allApps allLibs deps acc f)) \<union>
     set (apps (libHit allApps allLibs deps libsDir acc f)) \<union>
     set (apps (appHit appsDir acc f)) \<and>
   set (libs (reducer appsDir libsDir allApps allLibs deps acc f)) =
     set (libs (implicitHit allApps allLibs deps acc f)) \<union>
     set (libs (libHit allApps allLibs deps libsDir acc f)) \<union>
     set (libs (appHit appsDir acc f)) \<and>
   set (implicitDependencies (reducer appsDir libsDir allApps allLibs deps acc f)) =
     set (implicitDependencies (implicitHit allApps allLibs deps acc f)) \<union>
     set (implicitDependencies (libHit allApps allLibs deps libsDir acc f)) \<union>
     set (implicitDependencies (appHit appsDir acc f))"
proof (intro conjI)
  show "set (apps (reducer appsDir libsDir allApps allLibs deps acc f)) =
     set (apps (implicitHit allApps allLibs deps acc f)) \<union>
     set (apps (libHit allApps allLibs deps libsDir acc f)) \<union>
     set (apps (appHit appsDir acc f))"
    using reducer_apps [of appsDir libsDir allApps allLibs deps acc f]
      implicitHit_apps [of allApps allLibs deps acc f]
      libHit_apps [of allApps allLibs deps libsDir acc f]
      appHit_apps [of appsDir acc f]
    by blast
next
  show "set (libs (reducer appsDir libsDir allApps allLibs deps acc f)) =
     set (libs (implicitHit allApps allLibs deps acc f)) \<union>
     set (libs (libHit allApps allLibs deps libsDir acc f)) \<union>
     set (libs (appHit appsDir acc f))"
    using reducer_libs [of appsDir libsDir allApps allLibs deps acc f]
      implicitHit_libs [of allApps allLibs deps acc f]
      libHit_libs [of allApps allLibs deps libsDir acc f]
    by (auto simp: appHit_libs)
next
  have "implicitDependencies (reducer appsDir libsDir allApps allLibs deps acc f) =
      implicitDependencies (implicitHit allApps allLibs deps acc f)"
    by (simp add: reducer_def appHit_implicit libHit_implicit)
  moreover have "set (implicitDependencies acc) \<subseteq>
      set (implicitDependencies (implicitHit allApps allLibs deps acc f))"
    using implicitHit_implicit [of allApps allLibs deps acc f] by simp
  ultimately show "set (implicitDependencies (reducer appsDir libsDir allApps allLibs deps acc f)) =
     set (implicitDependencies (implicitHit allApps allLibs deps acc f)) \<union>
     set (implicitDependencies (libHit allApps allLibs deps libsDir acc f)) \<union>
     set (implicitDependencies (appHit appsDir acc f))"
    by (auto simp: appHit_implicit libHit_implicit)
qed

theorem rules_fire_independently_witness:
  "implicitHit [''shop'', ''admin''] [''ui'']
       [FileEntry ''libs/core/apps/web/x.ts'', KeyEntry ''core'' [''admin'']]
       initialChanges ''libs/core/apps/web/x.ts''
     = \<lparr>apps = [''shop'', ''admin''], libs = [''ui''],
         implicitDependencies = [''libs/core/apps/web/x.ts'']\<rparr> \<and>
   libHit [''shop'', ''admin''] [''ui'']
       [FileEntry ''libs/core/apps/web/x.ts'', KeyEntry ''core'' [''admin'']] ''libs''
       initialChanges ''libs/core/apps/web/x.ts''
     = \<lparr>apps = [''admin''], libs = [''core''], implicitDependencies = []\<rparr> \<and>
   appHit ''apps'' initialChanges ''libs/core/apps/web/x.ts''
     = \<lparr>apps = [''web''], libs = [], implicitDependencies = []\<rparr> \<and>
   reducer ''apps'' ''libs'' [''shop'', ''admin''] [''ui'']
       [FileEntry ''libs/core/apps/web/x.ts'', KeyEntry ''core'' [''admin'']]
       initialChanges ''libs/core/apps/web/x.ts''
     = \<lparr>apps = [''shop'', ''admin'', ''web''], libs = [''ui'', ''core''],
         implicitDependencies = [''libs/core/apps/web/x.ts'']\<rparr> \<and>
   set (apps (reducer ''apps'' ''libs'' [''shop'', ''admin''] [''ui'']
       [FileEntry ''libs/core/apps/web/x.ts'', KeyEntry ''core'' [''admin'']]
       initialChanges ''libs/core/apps/web/x.ts''))
     = set [''shop'', ''admin''] \<union> set [''admin''] \<union> set [''web'']"
  using rules_fire_independently [of "''apps''" "''libs''" "[''shop'', ''admin'']" "[''ui'']"
      "[FileEntry ''libs/core/apps/web/x.ts'', KeyEntry ''core'' [''admin'']]"
      initialChanges "''libs/core/apps/web/x.ts''"]
  by code_simp

subsection \<open>Explicit references\<close>

text \<open>
  Claim C8. For an event other than \<open>pull_request\<close> and \<open>push\<close>, resolving the references fails
  with the error for missing references if and only if the supplied base or head is empty;
  when both are supplied it returns exactly that pair; and the failure comes before any
  request for the comparison of the commits.

  The log line that prints the parsed ignore list (line 63) stands outside the \<^verbatim>\<open>try\<close>, and
  its \<^verbatim>\<open>join\<close> throws on an element that has no conversion to a string. The theorem
  evaluates \<open>getBaseAndHeadRefs\<close> for the event \<open>workflow_dispatch\<close> with base \<open>main\<close>, head
  \<open>feature\<close> and the ignore input \<^verbatim>\<open>[{"toString":null}]\<close> (written with \<open>CHR 0x22\<close> for the
  quotation mark), which \<^verbatim>\<open>JSON.parse\<close> turns into an array of one object with the own
  property \<^verbatim>\<open>toString\<close>: both references are supplied, and the result is the \<^verbatim>\<open>TypeError\<close>,
  not the pair. The rest of the claim holds: the error for missing references is the
  result exactly when base or head is empty (\<open>manual_event_missing_refs\<close>), the pair is
  returned whenever the log line does not throw (\<open>manual_event_returns_pair\<close>), and no
  failure of \<open>getBaseAndHeadRefs\<close> is followed by a request (\<open>failure_sends_no_request\<close>).
\<close>

theorem explicit_refs_lost_to_log_line:
  "getBaseAndHeadRefs
       \<lparr>eventName = ''workflow_dispatch'', pull_request_base_sha = None,
        pull_request_head_sha = None, payload_before = None, payload_after = None\<rparr>
       (\<lambda>s. if s = ''[{'' @ CHR 0x22 # ''toString'' @ CHR 0x22 # '':null}]''
            then Some (JArray [JObject [(''toString'', JNull)]]) else None)
       ''main'' ''feature'' (''[{'' @ CHR 0x22 # ''toString'' @ CHR 0x22 # '':null}]'')
     = Inl TypeError \<and>
   main_changedFiles
       \<lparr>eventName = ''workflow_dispatch'', pull_request_base_sha = None,
        pull_request_head_sha = None, payload_before = None, payload_after = None\<rparr>
       (\<lambda>s. if s = ''[{'' @ CHR 0x22 # ''toString'' @ CHR 0x22 # '':null}]''
            then Some (JArray [JObject [(''toString'', JNull)]]) else None)
       (\<lambda>b h. [''apps/web/a.ts''])
       ''main'' ''feature'' (''[{'' @ CHR 0x22 # ''toString'' @ CHR 0x22 # '':null}]'')
     = ([], Inl TypeError)"
  by (simp add: main_changedFiles_def getBaseAndHeadRefs_def selectRefs_def falsy_def
      parseIgnore_def)

subsection \<open>The ignore input\<close>

text \<open>
  Claim C9. A parse failure of the ignore input never fails the resolution: when the
  event's references resolve to a non-empty base and head, and the ignore input is not
  valid JSON (\<^verbatim>\<open>JSON.parse\<close> throws) or parses to a value that is not an array, the result
  is a success with that base and head and the empty ignore list.
\<close>

theorem ignore_parse_failure_is_soft:
  assumes "selectRefs ctx b h = Inr (Some bs, Some hs)" and "bs \<noteq> []" and "hs \<noteq> []"
    and "\<forall>xs. JSON_parse ign \<noteq> Some (JArray xs)"
  shows "getBaseAndHeadRefs ctx JSON_parse b h ign = Inr \<lparr>base = bs, head = hs, ignore = []\<rparr>"
proof -
  have "parseIgnore JSON_parse ign = []"
    using assms(4) by (rule parseIgnore_not_array)
  with assms(1-3) show ?thesis
    by (simp add: getBaseAndHeadRefs_def)
qed

theorem ignore_parse_failure_is_soft_witness:
  "selectRefs \<lparr>eventName = ''push'', pull_request_base_sha = None, pull_request_head_sha = None,
       payload_before = Some ''1a2b'', payload_after = Some ''3c4d''\<rparr> '''' ''''
     = Inr (Some ''1a2b'', Some ''3c4d'') \<and>
   getBaseAndHeadRefs \<lparr>eventName = ''push'', pull_request_base_sha = None,
       pull_request_head_sha = None, payload_before = Some ''1a2b'', payload_after = Some ''3c4d''\<rparr>
       (\<lambda>s. if s = ''[]'' then Some (JArray []) else if s = ''{}'' then Some (JObject []) else None)
       '''' '''' ''web, admin''
     = Inr \<lparr>base = ''1a2b'', head = ''3c4d'', ignore = []\<rparr> \<and>
   getBaseAndHeadRefs \<lparr>eventName = ''push'', pull_request_base_sha = None,
       pull_request_head_sha = None, payload_before = Some ''1a2b'', payload_after = Some ''3c4d''\<rparr>
       (\<lambda>s. if s = ''[]'' then Some (JArray []) else if s = ''{}'' then Some (JObject []) else None)
       '''' '''' ''{}''
     = Inr \<lparr>base = ''1a2b'', head = ''3c4d'', ignore = []\<rparr>"
proof -
  let ?ctx = "\<lparr>eventName = ''push'', pull_request_base_sha = None, pull_request_head_sha = None,
       payload_before = Some ''1a2b'', payload_after = Some ''3c4d''\<rparr>"
  let ?parse = "\<lambda>s. if s = ''[]'' then Some (JArray []) else if s = ''{}'' then Some (JObject [])
       else None"
  have s: "selectRefs ?ctx '''' '''' = Inr (Some ''1a2b'', Some ''3c4d'')"
    by (simp add: selectRefs_def)
  have b: "''1a2b'' \<noteq> []" and h: "''3c4d'' \<noteq> []"
    by simp_all
  have p1: "\<forall>xs. ?parse ''web, admin'' \<noteq> Some (JArray xs)"
    by simp
  have p2: "\<forall>xs. ?parse ''{}'' \<noteq> Some (JArray xs)"
    by simp
  from ignore_parse_failure_is_soft [OF s b h, of ?parse "''web, admin''"] p1
  have r1: "getBaseAndHeadRefs ?ctx ?parse '''' '''' ''web, admin''
     = Inr \<lparr>base = ''1a2b'', head = ''3c4d'', ignore = []\<rparr>"
    by blast
  from ignore_parse_failure_is_soft [OF s b h, of ?parse "''{}''"] p2
  have r2: "getBaseAndHeadRefs ?ctx ?parse '''' '''' ''{}''
     = Inr \<lparr>base = ''1a2b'', head = ''3c4d'', ignore = []\<rparr>"
    by blast
  from s r1 r2 show ?thesis by (intro conjI)
qed

subsection \<open>No duplicates in the output\<close>

text \<open>
  Claim C10. For every input, the \<open>apps\<close> list and the \<open>libs\<close> list that \<open>getChanges\<close> returns
  hold no name twice: a project reached through several changed files or several fan-out
  paths is listed once.
\<close>

theorem getChanges_no_duplicates:
  "distinct (apps (getChanges appsDir libsDir allApps allLibs deps changedFiles ign)) \<and>
   distinct (libs (getChanges appsDir libsDir allApps allLibs deps changedFiles ign))"
proof -
  have "distinct (apps initialChanges)" and "distinct (libs initialChanges)"
    by (simp_all add: initialChanges_fields)
  then have "distinct (apps (accumulate appsDir libsDir allApps allLibs deps changedFiles)) \<and>
             distinct (libs (accumulate appsDir libsDir allApps allLibs deps changedFiles))"
    unfolding accumulate_def by (rule foldl_reducer_distinct)
  then show ?thesis
    by (simp add: getChanges_fields)
qed

theorem getChanges_no_duplicates_witness:
  "distinct (apps (getChanges ''apps'' ''libs'' [''web''] [''core'']
       [KeyEntry ''core'' [''web'']]
       [''apps/web/a.ts'', ''libs/core/b.ts'', ''apps/web/c.ts'', ''libs/core/d.ts''] [])) \<and>
   distinct (libs (getChanges ''apps'' ''libs'' [''web''] [''core'']
       [KeyEntry ''core'' [''web'']]
       [''apps/web/a.ts'', ''libs/core/b.ts'', ''apps/web/c.ts'', ''libs/core/d.ts''] [])) \<and>
   getChanges ''apps'' ''libs'' [''web''] [''core'']
       [KeyEntry ''core'' [''web'']]
       [''apps/web/a.ts'', ''libs/core/b.ts'', ''apps/web/c.ts'', ''libs/core/d.ts''] []
     = \<lparr>apps = [''web''], libs = [''core''], implicitDependencies = []\<rparr>"
  using getChanges_no_duplicates [of "''apps''" "''libs''" "[''web'']" "[''core'']"
       "[KeyEntry ''core'' [''web'']]"
       "[''apps/web/a.ts'', ''libs/core/b.ts'', ''apps/web/c.ts'', ''libs/core/d.ts'']" "[]"]
  by code_simp

end
